theory Spec2Isabelle
  imports Main
begin

section \<open>The tokenizer: \<open>parseArgs\<close> of \<open>src/index.ts\<close>\<close>

text \<open>
  A JavaScript string is modelled as a \<open>string\<close>: one \<open>char\<close> per code unit. The
  scanner only ever compares a code unit with the backslash, the two quote characters and
  the four blanks, and otherwise copies it.
\<close>

definition backslash :: char where
  "backslash = CHR 0x5C"

definition dquote :: char where
  "dquote = CHR 0x22"

definition squote :: char where
  "squote = CHR 0x27"

definition is_blank :: "char \<Rightarrow> bool" where
  "is_blank c \<longleftrightarrow> c = CHR '' '' \<or> c = CHR 0x09 \<or> c = CHR 0x0A \<or> c = CHR 0x0D"

text \<open>The four local variables of \<open>parseArgs\<close>; \<open>quote\<close> is \<open>null\<close> or the open quote.\<close>

record scanner =
  args :: "string list"
  current :: string
  quote :: "char option"
  escape :: bool

definition scanner0 :: scanner where
  "scanner0 = \<lparr>args = [], current = [], quote = None, escape = False\<rparr>"

text \<open>One round of the \<open>for\<close> loop, on the code unit \<open>c\<close>.\<close>

definition step :: "char \<Rightarrow> scanner \<Rightarrow> scanner" where
  "step c st =
    (if escape st then st\<lparr>current := current st @ [c], escape := False\<rparr>
     else if c = backslash then st\<lparr>escape := True\<rparr>
     else case quote st of
       Some q \<Rightarrow>
         (if c = q then st\<lparr>quote := None\<rparr>
          else st\<lparr>current := current st @ [c]\<rparr>)
     | None \<Rightarrow>
         (if c = dquote \<or> c = squote then st\<lparr>quote := Some c\<rparr>
          else if is_blank c then
            (if current st \<noteq> [] then st\<lparr>args := args st @ [current st], current := []\<rparr>
             else st)
          else st\<lparr>current := current st @ [c]\<rparr>))"

text \<open>The loop over the code units of \<open>commandStr\<close>, from left to right.\<close>

fun scan :: "string \<Rightarrow> scanner \<Rightarrow> scanner" where
  "scan [] st = st"
| "scan (c # cs) st = scan cs (step c st)"

text \<open>A thrown \<open>Error\<close>, with its message.\<close>

datatype error = Error string

text \<open>What follows the loop: the unclosed quote throws, otherwise the last word is flushed.\<close>

definition finish :: "scanner \<Rightarrow> error + string list" where
  "finish st =
    (case quote st of
       Some q \<Rightarrow> Inl (Error (''Syntax error: Unclosed quote '' @ [q]))
     | None \<Rightarrow> Inr (if current st \<noteq> [] then args st @ [current st] else args st))"

definition parseArgs :: "string \<Rightarrow> error + string list" where
  "parseArgs commandStr = finish (scan commandStr scanner0)"

text \<open>
  The quote bookkeeping of the specification's tokenizer on its own: which quote, if any,
  is open after the input, given the open quote \<open>q\<close> and the pending escape \<open>e\<close> before it.
  It follows the words of the specification (section 4.1) and builds no tokens.
\<close>

fun spec_open_quote :: "string \<Rightarrow> char option \<Rightarrow> bool \<Rightarrow> char option" where
  "spec_open_quote [] q e = q"
| "spec_open_quote (c # cs) q e =
    (if e then spec_open_quote cs q False
     else if c = backslash then spec_open_quote cs q True
     else case q of
       Some a \<Rightarrow> (if c = a then spec_open_quote cs None False else spec_open_quote cs q False)
     | None \<Rightarrow>
         (if c = dquote \<or> c = squote then spec_open_quote cs (Some c) False
          else spec_open_quote cs None False))"

definition unclosed_quote :: "string \<Rightarrow> char option" where
  "unclosed_quote s = spec_open_quote s None False"

section \<open>Argument matchers: strings and regular expressions\<close>

text \<open>
  An element of \<open>allowedArgs\<close> or \<open>deniedArgs\<close> is a string or a \<open>RegExp\<close> object: a pattern,
  its flags, and the mutable \<open>lastIndex\<close>. The patterns are modelled by their syntax tree,
  for the constructs that the compiled-in rules use: a character, a character class
  (possibly negated, with \<open>\w\<close> among its items), the anchors \<open>^\<close> and \<open>$\<close>, sequence,
  alternative, and the greedy \<open>*\<close> and \<open>+\<close>.
\<close>

datatype citem = CChar char | CWord

datatype regex =
    Eps
  | Chr char
  | Class bool "citem list"
  | Bol
  | Eol
  | Cat regex regex
  | Alt regex regex
  | Star regex
  | Plus regex

text \<open>
  The object that \<open>parseRegex\<close> builds with \<open>new RegExp(pattern, flags)\<close>, or that a
  literal of the compiled-in rules denotes: the pattern, the flags \<open>g\<close>, \<open>i\<close>, \<open>m\<close> and
  \<open>y\<close>, and \<open>lastIndex\<close>, which \<open>test\<close> reads and writes under \<open>g\<close> and \<open>y\<close>. The objects
  live as long as the rules do. The flags \<open>d\<close>, \<open>s\<close>, \<open>u\<close> and \<open>v\<close> are left out.
\<close>

record RegExp =
  source :: regex
  global :: bool
  ignoreCase :: bool
  multiline :: bool
  sticky :: bool
  lastIndex :: nat

definition is_word_char :: "char \<Rightarrow> bool" where
  "is_word_char c \<longleftrightarrow>
     c \<in> set ''abcdefghijklmnopqrstuvwxyzABCDEFGHIJKLMNOPQRSTUVWXYZ0123456789_''"

text \<open>
  Case folding of a code unit below 256 under the flag \<open>i\<close>: \<open>toUpperCase\<close> where its
  result is one code unit that other code units below 256 share.
\<close>

definition canonicalize :: "bool \<Rightarrow> char \<Rightarrow> char" where
  "canonicalize ic c =
     (if ic then
        (let n = (of_char c :: nat)
         in if (97 \<le> n \<and> n \<le> 122) \<or> (224 \<le> n \<and> n \<le> 254 \<and> n \<noteq> 247)
            then char_of (n - 32) else c)
      else c)"

definition line_terminator :: "char \<Rightarrow> bool" where
  "line_terminator c \<longleftrightarrow> c = CHR 0x0A \<or> c = CHR 0x0D"

fun citem_has :: "bool \<Rightarrow> char \<Rightarrow> citem \<Rightarrow> bool" where
  "citem_has ic c (CChar d) = (canonicalize ic c = canonicalize ic d)"
| "citem_has ic c CWord = is_word_char c"

text \<open>
  The ends of the matches of a greedy \<open>*\<close> from position \<open>i\<close>, in the order in which the
  backtracking matcher tries them: first one more iteration of \<open>f\<close> (an iteration that
  consumes nothing is refused), last no iteration at all. \<open>n\<close> bounds the number of
  iterations.
\<close>

primrec star :: "nat \<Rightarrow> (nat \<Rightarrow> nat list) \<Rightarrow> nat \<Rightarrow> nat list" where
  "star 0 f i = [i]"
| "star (Suc n) f i = concat (map (star n f) (filter (\<lambda>k. k \<noteq> i) (f i))) @ [i]"

text \<open>
  \<open>ends re ic ml s i\<close>: the positions where a match of \<open>re\<close> that starts at position \<open>i\<close>
  of \<open>s\<close> can end, under the flags \<open>i\<close> and \<open>m\<close>, in the matcher's order of preference; the
  head is the end of the match it reports. Every iteration of a \<open>*\<close> consumes a code unit,
  so \<open>length s\<close> iterations are all there can be.
\<close>

primrec ends :: "regex \<Rightarrow> bool \<Rightarrow> bool \<Rightarrow> string \<Rightarrow> nat \<Rightarrow> nat list" where
  "ends Eps ic ml s i = [i]"
| "ends (Chr c) ic ml s i =
     (if i < length s \<and> canonicalize ic (s ! i) = canonicalize ic c then [Suc i] else [])"
| "ends (Class neg items) ic ml s i =
     (if i < length s \<and> (list_ex (citem_has ic (s ! i)) items \<noteq> neg) then [Suc i] else [])"
| "ends Bol ic ml s i =
     (if i = 0 \<or> (ml \<and> i \<le> length s \<and> line_terminator (s ! (i - 1))) then [i] else [])"
| "ends Eol ic ml s i =
     (if i = length s \<or> (ml \<and> i < length s \<and> line_terminator (s ! i)) then [i] else [])"
| "ends (Cat a b) ic ml s i = concat (map (ends b ic ml s) (ends a ic ml s i))"
| "ends (Alt a b) ic ml s i = ends a ic ml s i @ ends b ic ml s i"
| "ends (Star a) ic ml s i = star (length s) (ends a ic ml s) i"
| "ends (Plus a) ic ml s i =
     concat (map (star (length s) (ends a ic ml s)) (ends a ic ml s i))"

definition match_ends :: "RegExp \<Rightarrow> string \<Rightarrow> nat \<Rightarrow> nat list" where
  "match_ends re s i = ends (source re) (ignoreCase re) (multiline re) s i"

text \<open>The end of the first match that starts at one of the given positions, tried in turn.\<close>

fun first_match :: "RegExp \<Rightarrow> string \<Rightarrow> nat list \<Rightarrow> nat option" where
  "first_match re s [] = None"
| "first_match re s (i # starts) =
     (case match_ends re s i of [] \<Rightarrow> first_match re s starts | e # _ \<Rightarrow> Some e)"

text \<open>
  \<open>RegExp.prototype.test\<close>, with the object as it is left. Without \<open>g\<close> and \<open>y\<close> the search
  starts at 0 and the object is untouched. With \<open>g\<close> or \<open>y\<close> it starts at \<open>lastIndex\<close> (with
  \<open>y\<close> it tries that position only), and \<open>lastIndex\<close> becomes the end of the match found, or
  0 when none is found.
\<close>

definition test :: "RegExp \<Rightarrow> string \<Rightarrow> bool \<times> RegExp" where
  "test re s =
     (let stateful = (global re \<or> sticky re);
          start = (if stateful then lastIndex re else 0);
          starts = (if sticky re then (if start \<le> length s then [start] else [])
                    else [start..<Suc (length s)])
      in case first_match re s starts of
           None \<Rightarrow> (False, if stateful then re\<lparr>lastIndex := 0\<rparr> else re)
         | Some e \<Rightarrow> (True, if stateful then re\<lparr>lastIndex := e\<rparr> else re))"

text \<open>
  A matcher is a string, a \<open>RegExp\<close>, or a value that is neither (a configuration file may
  hold one; the callbacks answer \<open>false\<close> for it).
\<close>

datatype matcher = Literal string | Pattern RegExp | Neither

text \<open>
  The callback that both \<open>some(...)\<close> calls pass, and \<open>Array.prototype.some\<close> with it: the
  matchers are tried in order up to the first that answers \<open>true\<close>, and each \<open>RegExp\<close> tried
  is left as its \<open>test\<close> left it.
\<close>

fun matcher_test :: "string \<Rightarrow> matcher \<Rightarrow> bool \<times> matcher" where
  "matcher_test arg (Literal d) = (arg = d, Literal d)"
| "matcher_test arg (Pattern re) = (case test re arg of (r, re') \<Rightarrow> (r, Pattern re'))"
| "matcher_test arg Neither = (False, Neither)"

fun some :: "string \<Rightarrow> matcher list \<Rightarrow> bool \<times> matcher list" where
  "some arg [] = (False, [])"
| "some arg (m # ms) =
     (case matcher_test arg m of
        (True, m') \<Rightarrow> (True, m' # ms)
      | (False, m') \<Rightarrow> (case some arg ms of (r, ms') \<Rightarrow> (r, m' # ms')))"


definition spec_matches_somewhere :: "RegExp \<Rightarrow> string \<Rightarrow> bool" where
  "spec_matches_somewhere re s \<longleftrightarrow>
     (\<exists>i j. i \<le> j \<and> j \<le> length s \<and> j \<in> set (match_ends re s i))"

fun spec_matches :: "string \<Rightarrow> matcher \<Rightarrow> bool" where
  "spec_matches arg (Literal l) = (arg = l)"
| "spec_matches arg (Pattern re) = spec_matches_somewhere re arg"
| "spec_matches arg Neither = False"

section \<open>The validator: \<open>validateCommand\<close> of \<open>src/index.ts\<close>\<close>

text \<open>The interface \<open>AllowedCommand\<close>; an optional field that is absent is \<open>None\<close>.\<close>

record AllowedCommand =
  command :: string
  allowedArgs :: "matcher list option"
  deniedArgs :: "matcher list option"

text \<open>
  The four regular expressions of \<open>DEFAULT_ALLOWED_COMMANDS\<close>: \<open>/^["\w@/.-]+$/\<close>, \<open>/^-/\<close>,
  \<open>/^'[^']*'$/\<close> and \<open>/^"[^"]*"$/\<close>. A regular expression literal has no flags and starts
  with \<open>lastIndex\<close> 0.
\<close>

definition literal :: "regex \<Rightarrow> RegExp" where
  "literal r =
     \<lparr>source = r, global = False, ignoreCase = False, multiline = False, sticky = False,
      lastIndex = 0\<rparr>"

definition re_name :: RegExp where
  "re_name =
     literal (Cat Bol (Cat (Plus (Class False
       [CChar (CHR 0x22), CWord, CChar (CHR ''@''), CChar (CHR ''/''), CChar (CHR ''.''),
        CChar (CHR ''-'')])) Eol))"

definition re_dash :: RegExp where
  "re_dash = literal (Cat Bol (Chr (CHR ''-'')))"

definition re_squoted :: RegExp where
  "re_squoted =
     literal (Cat Bol (Cat (Chr (CHR 0x27)) (Cat (Star (Class True [CChar (CHR 0x27)]))
       (Cat (Chr (CHR 0x27)) Eol))))"

definition re_dquoted :: RegExp where
  "re_dquoted =
     literal (Cat Bol (Cat (Chr (CHR 0x22)) (Cat (Star (Class True [CChar (CHR 0x22)]))
       (Cat (Chr (CHR 0x22)) Eol))))"

definition program_only :: "string \<Rightarrow> AllowedCommand" where
  "program_only c = \<lparr>command = c, allowedArgs = None, deniedArgs = None\<rparr>"

definition npm_rule :: AllowedCommand where
  "npm_rule =
    \<lparr>command = ''npm'',
     allowedArgs = Some (map Literal
       [''install'', ''i'', ''ci'',
        ''run'', ''test'', ''start'', ''build'', ''dev'', ''lint'', ''format'',
        ''init'', ''create'',
        ''list'', ''ls'',
        ''view'', ''search'', ''info'', ''audit'', ''fund'', ''doctor'',
        ''version'', ''v''] @ [Pattern re_name, Pattern re_dash]),
     deniedArgs = Some (map Literal
       [''publish'', ''unpublish'', ''login'', ''logout'', ''adduser'', ''owner'', ''team'',
        ''token'', ''whoami'', ''eval'', ''exec''])\<rparr>"

definition yarn_rule :: AllowedCommand where
  "yarn_rule =
    \<lparr>command = ''yarn'',
     allowedArgs = Some (map Literal
       [''install'', ''add'', ''remove'',
        ''run'', ''test'', ''start'', ''build'', ''dev'', ''lint'', ''format'',
        ''init'', ''create'',
        ''list'', ''info'', ''audit'', ''why'',
        ''version'', ''-v'', ''--version''] @ [Pattern re_name, Pattern re_dash]),
     deniedArgs = Some (map Literal
       [''publish'', ''login'', ''logout'', ''owner'', ''team'', ''whoami'', ''exec'',
        ''node''])\<rparr>"

definition pnpm_rule :: AllowedCommand where
  "pnpm_rule =
    \<lparr>command = ''pnpm'',
     allowedArgs = Some (map Literal
       [''install'', ''i'', ''add'', ''remove'',
        ''run'', ''test'', ''start'', ''build'', ''dev'', ''lint'', ''format'',
        ''init'', ''create'',
        ''list'', ''ls'', ''info'', ''audit'', ''why'', ''store'',
        ''version'', ''-v'', ''--version''] @ [Pattern re_name, Pattern re_dash]),
     deniedArgs = Some (map Literal
       [''publish'', ''login'', ''logout'', ''server'', ''exec'', ''dlx''])\<rparr>"

definition git_rule :: AllowedCommand where
  "git_rule =
    \<lparr>command = ''git'',
     allowedArgs = Some (map Literal
       [''status'', ''log'', ''diff'', ''show'', ''branch'', ''tag'',
        ''checkout'', ''switch'', ''add'', ''commit'', ''push'', ''pull'', ''fetch'',
        ''clone'', ''init'', ''remote'', ''config'',
        ''stash'', ''merge'', ''rebase'', ''reset'', ''restore'',
        ''clean'', ''blame'', ''grep''] @
       [Pattern re_name, Pattern re_dash, Pattern re_squoted, Pattern re_dquoted]),
     deniedArgs = None\<rparr>"

definition DEFAULT_ALLOWED_COMMANDS :: "AllowedCommand list" where
  "DEFAULT_ALLOWED_COMMANDS =
     map program_only
       [''ls'', ''cat'', ''echo'', ''pwd'', ''whoami'', ''date'', ''grep'', ''find'', ''head'',
        ''tail'', ''wc'', ''du'', ''df'', ''which'',
        ''mkdir'', ''touch'', ''cp''] @
     [npm_rule, yarn_rule, pnpm_rule] @
     map program_only [''tsc''] @
     [git_rule] @
     map program_only [''pod'', ''xcodebuild'', ''fastlane'', ''curl'']"

text \<open>
  The two checks of the loop body for one argument, each with the rule as its \<open>some(...)\<close>
  call leaves it: whether the argument is denied, and whether it fails the allow check. A
  list that is absent is not consulted.
\<close>

definition isDenied :: "AllowedCommand \<Rightarrow> string \<Rightarrow> bool \<times> AllowedCommand" where
  "isDenied allowedConfig arg =
     (case deniedArgs allowedConfig of
        None \<Rightarrow> (False, allowedConfig)
      | Some ds \<Rightarrow>
          (case some arg ds of (r, ds') \<Rightarrow> (r, allowedConfig\<lparr>deniedArgs := Some ds'\<rparr>)))"

definition isAllowedArg :: "AllowedCommand \<Rightarrow> string \<Rightarrow> bool \<times> AllowedCommand" where
  "isAllowedArg allowedConfig arg =
     (case allowedArgs allowedConfig of
        None \<Rightarrow> (True, allowedConfig)
      | Some as \<Rightarrow>
          (case some arg as of (r, as') \<Rightarrow> (r, allowedConfig\<lparr>allowedArgs := Some as'\<rparr>)))"

text \<open>The three messages \<open>validateCommand\<close> returns.\<close>

definition not_whitelisted :: "string \<Rightarrow> string" where
  "not_whitelisted baseCommand =
     ''Command '' @ [CHR 0x27] @ baseCommand @ [CHR 0x27] @ '' is not in the allowed whitelist.''"

definition explicitly_denied :: "string \<Rightarrow> string \<Rightarrow> string" where
  "explicitly_denied arg baseCommand =
     ''Argument '' @ [CHR 0x27] @ arg @ [CHR 0x27] @ '' for command '' @ [CHR 0x27] @
     baseCommand @ [CHR 0x27] @ '' is explicitly denied.''"

definition not_allowed :: "string \<Rightarrow> string \<Rightarrow> string" where
  "not_allowed arg baseCommand =
     ''Argument '' @ [CHR 0x27] @ arg @ [CHR 0x27] @ '' for command '' @ [CHR 0x27] @
     baseCommand @ [CHR 0x27] @ '' is not allowed.''"

text \<open>
  The \<open>for\<close> loop over the arguments; \<open>None\<close> is the \<open>null\<close> of an accepted command. The
  rule comes back as the tests have left its \<open>RegExp\<close> objects.
\<close>

fun check_args ::
  "AllowedCommand \<Rightarrow> string \<Rightarrow> string list \<Rightarrow> string option \<times> AllowedCommand" where
  "check_args allowedConfig baseCommand [] = (None, allowedConfig)"
| "check_args allowedConfig baseCommand (arg # rest) =
     (case isDenied allowedConfig arg of
        (True, c1) \<Rightarrow> (Some (explicitly_denied arg baseCommand), c1)
      | (False, c1) \<Rightarrow>
          (case isAllowedArg c1 arg of
             (False, c2) \<Rightarrow> (Some (not_allowed arg baseCommand), c2)
           | (True, c2) \<Rightarrow> check_args c2 baseCommand rest))"

text \<open>\<open>this.allowedCommands.find(c => c.command === baseCommand)\<close>: the first rule of that name.\<close>

definition find_rule :: "AllowedCommand list \<Rightarrow> string \<Rightarrow> AllowedCommand option" where
  "find_rule allowedCommands baseCommand = find (\<lambda>c. command c = baseCommand) allowedCommands"

text \<open>
  The rule that \<open>find\<close> returns is an object of the array, so what the tests do to it is
  done in the array: the first rule of that name is the one that changes.
\<close>

fun store_rule :: "string \<Rightarrow> AllowedCommand \<Rightarrow> AllowedCommand list \<Rightarrow> AllowedCommand list" where
  "store_rule baseCommand c' [] = []"
| "store_rule baseCommand c' (c # cs) =
     (if command c = baseCommand then c' # cs else c # store_rule baseCommand c' cs)"

text \<open>
  \<open>validateCommand\<close>: the message or \<open>null\<close>, and \<open>this.allowedCommands\<close> as the call
  leaves it.
\<close>

definition validateCommand ::
  "AllowedCommand list \<Rightarrow> string \<Rightarrow> string list \<Rightarrow> string option \<times> AllowedCommand list" where
  "validateCommand allowedCommands baseCommand argv =
     (case find_rule allowedCommands baseCommand of
        None \<Rightarrow> (Some (not_whitelisted baseCommand), allowedCommands)
      | Some allowedConfig \<Rightarrow>
          if allowedArgs allowedConfig \<noteq> None \<or> deniedArgs allowedConfig \<noteq> None
          then (case check_args allowedConfig baseCommand argv of
                  (r, c') \<Rightarrow> (r, store_rule baseCommand c' allowedCommands))
          else (None, allowedCommands))"

text \<open>A rule none of whose patterns carries \<open>g\<close> or \<open>y\<close>: its tests leave nothing behind.\<close>

fun stateless :: "matcher \<Rightarrow> bool" where
  "stateless (Pattern re) = (\<not> global re \<and> \<not> sticky re)"
| "stateless m = True"

definition stateless_rule :: "AllowedCommand \<Rightarrow> bool" where
  "stateless_rule c \<longleftrightarrow>
     (case deniedArgs c of None \<Rightarrow> True | Some ds \<Rightarrow> list_all stateless ds) \<and>
     (case allowedArgs c of None \<Rightarrow> True | Some as \<Rightarrow> list_all stateless as)"

text \<open>
  The two checks in the specification's words: an argument is denied when the rule has
  denied matchers and one of them matches it; it is allowed when the rule has no allowed
  matchers, or one of them matches it.
\<close>

definition spec_denied :: "AllowedCommand \<Rightarrow> string \<Rightarrow> bool" where
  "spec_denied c arg \<longleftrightarrow>
     (case deniedArgs c of None \<Rightarrow> False | Some ds \<Rightarrow> \<exists>d\<in>set ds. spec_matches arg d)"

definition spec_allowed :: "AllowedCommand \<Rightarrow> string \<Rightarrow> bool" where
  "spec_allowed c arg \<longleftrightarrow>
     (case allowedArgs c of None \<Rightarrow> True | Some as \<Rightarrow> \<exists>a\<in>set as. spec_matches arg a)"

section \<open>The process runner: \<open>spawnAsync\<close> of \<open>src/index.ts\<close>\<close>

text \<open>
  The promise that \<open>spawnAsync\<close> returns is settled by event handlers, each of which runs
  to its end before the next event is handled. The model is the state the handlers share
  and a function that handles one event; a run of the child process is the list of the
  events it produces, in the order in which they are handled.
\<close>

datatype outcome = Resolved string string | Rejected error

text \<open>
  The variables of the closure. \<open>timeout_pending\<close> says that the timer set by
  \<open>setTimeout\<close> has neither fired nor been cleared, \<open>killed\<close> that \<open>child.kill()\<close> was
  called, and \<open>calls\<close> lists the calls of \<open>resolve\<close> and \<open>reject\<close> in the order they were
  made.
\<close>

record locals =
  stdout :: string
  stderr :: string
  stdoutTruncated :: bool
  stderrTruncated :: bool
  timedOut :: bool
  timeout_pending :: bool
  killed :: bool
  calls :: "outcome list"

definition locals0 :: locals where
  "locals0 =
    \<lparr>stdout = [], stderr = [], stdoutTruncated = False, stderrTruncated = False,
     timedOut = False, timeout_pending = True, killed = False, calls = []\<rparr>"

text \<open>A promise is settled by the first call of \<open>resolve\<close> or \<open>reject\<close>; later calls do nothing.\<close>

definition promise :: "locals \<Rightarrow> outcome option" where
  "promise st = (case calls st of [] \<Rightarrow> None | out # _ \<Rightarrow> Some out)"

definition resolve :: "string \<Rightarrow> string \<Rightarrow> locals \<Rightarrow> locals" where
  "resolve out err st = st\<lparr>calls := calls st @ [Resolved out err]\<rparr>"

definition reject :: "error \<Rightarrow> locals \<Rightarrow> locals" where
  "reject e st = st\<lparr>calls := calls st @ [Rejected e]\<rparr>"

definition cleanup :: "locals \<Rightarrow> locals" where
  "cleanup st = st\<lparr>timeout_pending := False\<rparr>"

definition truncation_marker :: string where
  "truncation_marker = CHR 0x0A # ''...[Output truncated due to size limit]...''"

text \<open>
  The decimal text of a number in a template string, as JavaScript prints a whole number
  below \<open>10\<^sup>2\<^sup>1\<close>; the exit code may be \<open>null\<close>.
\<close>

definition digit :: "nat \<Rightarrow> char" where
  "digit d = ''0123456789'' ! d"

fun show_nat :: "nat \<Rightarrow> string" where
  "show_nat n = (if n < 10 then [digit n] else show_nat (n div 10) @ [digit (n mod 10)])"

declare show_nat.simps [simp del]

definition show_code :: "int option \<Rightarrow> string" where
  "show_code code =
     (case code of
        None \<Rightarrow> ''null''
      | Some c \<Rightarrow> if c < 0 then CHR ''-'' # show_nat (nat (- c)) else show_nat (nat c))"

definition timed_out :: "nat \<Rightarrow> error" where
  "timed_out timeoutMs = Error (''Command timed out after '' @ show_nat timeoutMs @ ''ms'')"

definition exited_with :: "int option \<Rightarrow> string \<Rightarrow> error" where
  "exited_with code err =
     Error (''Command exited with code '' @ show_code code @ [CHR 0x0A] @ ''Stderr: '' @ err)"

text \<open>
  The events: a chunk of either stream (already converted to a string), the timer, the
  child's \<open>error\<close> and the child's \<open>close\<close> with its exit code.
\<close>

datatype event =
    StdoutData string
  | StderrData string
  | TimeoutFires
  | ChildError error
  | ChildClose "int option"

text \<open>
  The five handlers. The timer's handler can only run while the timer is pending;
  \<open>clearTimeout\<close> (in \<open>cleanup\<close>) and its own firing end that.
\<close>

fun dispatch :: "nat \<Rightarrow> nat \<Rightarrow> event \<Rightarrow> locals \<Rightarrow> locals" where
  "dispatch timeoutMs maxBuffer (StdoutData data) st =
     (if length (stdout st) < maxBuffer then st\<lparr>stdout := stdout st @ data\<rparr>
      else if \<not> stdoutTruncated st
      then st\<lparr>stdout := stdout st @ truncation_marker, stdoutTruncated := True\<rparr>
      else st)"
| "dispatch timeoutMs maxBuffer (StderrData data) st =
     (if length (stderr st) < maxBuffer then st\<lparr>stderr := stderr st @ data\<rparr>
      else if \<not> stderrTruncated st
      then st\<lparr>stderr := stderr st @ truncation_marker, stderrTruncated := True\<rparr>
      else st)"
| "dispatch timeoutMs maxBuffer TimeoutFires st =
     (if timeout_pending st
      then reject (timed_out timeoutMs)
             (st\<lparr>timedOut := True, timeout_pending := False, killed := True\<rparr>)
      else st)"
| "dispatch timeoutMs maxBuffer (ChildError e) st =
     (let st' = cleanup st in if \<not> timedOut st' then reject e st' else st')"
| "dispatch timeoutMs maxBuffer (ChildClose code) st =
     (let st' = cleanup st in
      if \<not> timedOut st' then
        (if code = Some 0 then resolve (stdout st') (stderr st') st'
         else reject (exited_with code (stderr st')) st')
      else st')"

fun run :: "nat \<Rightarrow> nat \<Rightarrow> event list \<Rightarrow> locals \<Rightarrow> locals" where
  "run timeoutMs maxBuffer [] st = st"
| "run timeoutMs maxBuffer (e # es) st = run timeoutMs maxBuffer es (dispatch timeoutMs maxBuffer e st)"

definition spawnAsync :: "nat \<Rightarrow> nat \<Rightarrow> event list \<Rightarrow> outcome option" where
  "spawnAsync timeoutMs maxBuffer es = promise (run timeoutMs maxBuffer es locals0)"

text \<open>The events that can settle the promise, and the chunks of each stream in a run.\<close>

fun terminal :: "event \<Rightarrow> bool" where
  "terminal (StdoutData data) = False"
| "terminal (StderrData data) = False"
| "terminal TimeoutFires = True"
| "terminal (ChildError e) = True"
| "terminal (ChildClose code) = True"

fun stdout_chunks :: "event list \<Rightarrow> string list" where
  "stdout_chunks [] = []"
| "stdout_chunks (StdoutData data # es) = data # stdout_chunks es"
| "stdout_chunks (e # es) = stdout_chunks es"

fun stderr_chunks :: "event list \<Rightarrow> string list" where
  "stderr_chunks [] = []"
| "stderr_chunks (StderrData data # es) = data # stderr_chunks es"
| "stderr_chunks (e # es) = stderr_chunks es"

text \<open>
  What either \<open>data\<close> handler does to its own pair of variables, the accumulated text and
  its truncation flag; the proofs about the two streams go through it.
\<close>

definition feed :: "nat \<Rightarrow> string \<times> bool \<Rightarrow> string \<Rightarrow> string \<times> bool" where
  "feed maxBuffer p data =
     (case p of (buf, truncated) \<Rightarrow>
        if length buf < maxBuffer then (buf @ data, truncated)
        else if \<not> truncated then (buf @ truncation_marker, True)
        else (buf, truncated))"

section \<open>Properties of the tokenizer\<close>

lemmas tokenizer_defs =
  parseArgs_def finish_def step_def scanner0_def backslash_def dquote_def squote_def
  is_blank_def

lemma scan_append: "scan (xs @ ys) st = scan ys (scan xs st)"
  by (induction xs arbitrary: st) simp_all

lemma quote_scan: "quote (scan s st) = spec_open_quote s (quote st) (escape st)"
  by (induction s arbitrary: st) (auto simp: step_def split: option.splits)

lemma spec_open_quote_char:
  "spec_open_quote s q e = Some a \<Longrightarrow> a = dquote \<or> a = squote \<or> q = Some a"
  by (induction s q e rule: spec_open_quote.induct) (auto split: if_splits option.splits)

lemma args_nonempty_step:
  "[] \<notin> set (args st) \<Longrightarrow> [] \<notin> set (args (step c st))"
  by (auto simp: step_def split: option.splits)

lemma args_nonempty_scan:
  "[] \<notin> set (args st) \<Longrightarrow> [] \<notin> set (args (scan s st))"
proof (induction s arbitrary: st)
  case Nil
  then show ?case by simp
next
  case (Cons c cs)
  from Cons.prems have "[] \<notin> set (args (step c st))"
    by (rule args_nonempty_step)
  then show ?case using Cons.IH by simp
qed

text \<open>
  C5. The reference equalities of the tokenizer: \<open>ls -la\<close>, \<open>git commit -m "fix bug"\<close>,
  \<open>echo 'hello world'\<close>, the quote-adjacent \<open>a"b"c\<close>, and the empty input.
\<close>

theorem parseArgs_reference_examples:
  \<open>parseArgs ''ls -la'' = Inr [''ls'', ''-la''] \<and>
   parseArgs ''git commit -m "fix bug"'' = Inr [''git'', ''commit'', ''-m'', ''fix bug''] \<and>
   parseArgs (''echo '' @ [CHR 0x27] @ ''hello world'' @ [CHR 0x27]) =
     Inr [''echo'', ''hello world''] \<and>
   parseArgs ''a"b"c'' = Inr [''abc''] \<and>
   parseArgs [] = Inr []\<close>
  by (simp add: tokenizer_defs)

text \<open>
  C4. \<open>parseArgs\<close> throws exactly when a quote is still open at the end of the input, and
  the message ends with that quote character, which is a single or a double quote; on
  every other input it returns a list of tokens.
\<close>

theorem parseArgs_unclosed_quote:
  "(parseArgs s = Inl e \<longleftrightarrow>
      (\<exists>q. unclosed_quote s = Some q \<and> (q = dquote \<or> q = squote) \<and>
           e = Error (''Syntax error: Unclosed quote '' @ [q]))) \<and>
   (unclosed_quote s = None \<longleftrightarrow> (\<exists>ts. parseArgs s = Inr ts))"
proof -
  have q: "quote (scan s scanner0) = unclosed_quote s"
    by (simp add: quote_scan unclosed_quote_def scanner0_def)
  have c: "q = dquote \<or> q = squote" if "unclosed_quote s = Some q" for q
    using spec_open_quote_char [of s None False q] that by (simp add: unclosed_quote_def)
  show ?thesis
  proof (cases "unclosed_quote s")
    case None
    then show ?thesis using q by (simp add: parseArgs_def finish_def)
  next
    case (Some a)
    then show ?thesis using q c [of a] by (auto simp: parseArgs_def finish_def)
  qed
qed

theorem parseArgs_unclosed_quote_witness:
  \<open>unclosed_quote ''echo "hello'' = Some dquote \<and>
   parseArgs ''echo "hello'' = Inl (Error ''Syntax error: Unclosed quote "'') \<and>
   unclosed_quote ''echo "hello" x'' = None \<and>
   (\<exists>ts. parseArgs ''echo "hello" x'' = Inr ts)\<close>
proof -
  have a: \<open>unclosed_quote ''echo "hello'' = Some dquote\<close>
    by (simp add: unclosed_quote_def backslash_def dquote_def squote_def)
  have b: \<open>unclosed_quote ''echo "hello" x'' = None\<close>
    by (simp add: unclosed_quote_def backslash_def dquote_def squote_def)
  from a parseArgs_unclosed_quote
    [of \<open>''echo "hello''\<close> \<open>Error ''Syntax error: Unclosed quote "''\<close>]
  have \<open>parseArgs ''echo "hello'' = Inl (Error ''Syntax error: Unclosed quote "'')\<close>
    by (simp add: dquote_def)
  moreover from b parseArgs_unclosed_quote [of \<open>''echo "hello" x''\<close>]
  have \<open>\<exists>ts. parseArgs ''echo "hello" x'' = Inr ts\<close>
    by simp
  ultimately show ?thesis using a b by simp
qed

text \<open>
  C6. A backslash that is not itself escaped escapes the next code unit, inside and outside
  quotes alike: after the pair, the scanner is where it was before it, with the escaped code
  unit appended to the current token and nothing else changed (no token emitted, the open
  quote as it was). A backslash at the very end of the input changes nothing: the result is
  that of the input without it.
\<close>

theorem backslash_escapes_next:
  "\<not> escape (scan p scanner0) \<Longrightarrow>
     scan (p @ [backslash, c]) scanner0 =
       (scan p scanner0)\<lparr>current := current (scan p scanner0) @ [c]\<rparr> \<and>
     parseArgs (p @ [backslash]) = parseArgs p"
  by (auto simp: scan_append step_def parseArgs_def finish_def split: option.splits)

theorem backslash_escapes_next_witness:
  \<open>\<not> escape (scan ''x "y'' scanner0) \<and>
   scan (''x "y'' @ [backslash, dquote]) scanner0 =
     \<lparr>args = [''x''], current = ''y"'', quote = Some dquote, escape = False\<rparr> \<and>
   parseArgs (''x y'' @ [backslash, CHR '' '', CHR ''z'']) = Inr [''x'', ''y z''] \<and>
   parseArgs (''x y'' @ [backslash]) = Inr [''x'', ''y'']\<close>
proof -
  have a: \<open>\<not> escape (scan ''x "y'' scanner0)\<close>
    by (simp add: tokenizer_defs)
  have b: \<open>\<not> escape (scan ''x y'' scanner0)\<close>
    by (simp add: tokenizer_defs)
  have c: \<open>scan ''x "y'' scanner0 =
      \<lparr>args = [''x''], current = ''y'', quote = Some dquote, escape = False\<rparr>\<close>
    by (simp add: tokenizer_defs)
  have d: \<open>parseArgs ''x y'' = Inr [''x'', ''y'']\<close>
    by (simp add: tokenizer_defs)
  have e: \<open>parseArgs (''x y'' @ [backslash, CHR '' '', CHR ''z'']) = Inr [''x'', ''y z'']\<close>
    by (simp add: tokenizer_defs)
  from backslash_escapes_next [OF a, of dquote] c
  have \<open>scan (''x "y'' @ [backslash, dquote]) scanner0 =
      \<lparr>args = [''x''], current = ''y"'', quote = Some dquote, escape = False\<rparr>\<close>
    by (simp add: dquote_def)
  moreover from backslash_escapes_next [OF b, of \<open>CHR '' ''\<close>] d
  have \<open>parseArgs (''x y'' @ [backslash]) = Inr [''x'', ''y'']\<close>
    by simp
  ultimately show ?thesis using a e by simp
qed

text \<open>
  C9. No token that \<open>parseArgs\<close> returns is the empty string; a quoted empty string adds
  no token, so \<open>echo ""\<close> has the single token \<open>echo\<close>.
\<close>

theorem parseArgs_tokens_nonempty:
  \<open>(parseArgs s = Inr ts \<longrightarrow> [] \<notin> set ts) \<and> parseArgs ''echo ""'' = Inr [''echo'']\<close>
proof -
  have "[] \<notin> set (args (scan s scanner0))"
    by (rule args_nonempty_scan) (simp add: scanner0_def)
  then have "parseArgs s = Inr ts \<longrightarrow> [] \<notin> set ts"
    by (auto simp: parseArgs_def finish_def split: option.splits if_splits)
  moreover have \<open>parseArgs ''echo ""'' = Inr [''echo'']\<close>
    by (simp add: tokenizer_defs)
  ultimately show ?thesis by simp
qed

theorem parseArgs_tokens_nonempty_witness:
  \<open>parseArgs ''a "" b'' = Inr [''a'', ''b''] \<and> [] \<notin> set [''a'', ''b'']\<close>
proof -
  have a: \<open>parseArgs ''a "" b'' = Inr [''a'', ''b'']\<close>
    by (simp add: tokenizer_defs)
  from parseArgs_tokens_nonempty [of \<open>''a "" b''\<close> \<open>[''a'', ''b'']\<close>] a
  show ?thesis by simp
qed

text \<open>The expectations of the repository's tests for \<open>parseArgs\<close> that C5 does not list.\<close>

lemma parseArgs_repository_tests:
  \<open>parseArgs (''echo '' @ [backslash] @ ''"hello'' @ [backslash] @ ''"'') =
     Inr [''echo'', ''"hello"'']\<close>
  \<open>\<exists>e. parseArgs ''echo "hello'' = Inl e\<close>
  \<open>\<exists>e. parseArgs (''echo '' @ [CHR 0x27] @ ''hello'') = Inl e\<close>
  by (simp_all add: tokenizer_defs)

section \<open>Properties of the validator\<close>

lemma star_bounds:
  assumes f: "\<And>i j. i \<le> n \<Longrightarrow> j \<in> set (f i) \<Longrightarrow> i \<le> j \<and> j \<le> n"
  shows "i \<le> n \<Longrightarrow> j \<in> set (star k f i) \<Longrightarrow> i \<le> j \<and> j \<le> n"
proof (induction k arbitrary: i)
  case 0
  then show ?case by simp
next
  case (Suc k)
  from Suc.prems(2) consider "j = i"
    | h where "h \<in> set (f i)" "j \<in> set (star k f h)"
    by auto
  then show ?case
  proof cases
    case 1
    then show ?thesis using Suc.prems(1) by simp
  next
    case 2
    from f [OF Suc.prems(1) 2(1)] have ih: "i \<le> h" "h \<le> n"
      by simp_all
    from Suc.IH [OF ih(2) 2(2)] ih(1) show ?thesis
      by simp
  qed
qed

lemma ends_bounds:
  "i \<le> length s \<Longrightarrow> j \<in> set (ends re ic ml s i) \<Longrightarrow> i \<le> j \<and> j \<le> length s"
proof (induction re arbitrary: i j)
  case (Cat a b)
  from Cat.prems(2) obtain k
    where k: "k \<in> set (ends a ic ml s i)" "j \<in> set (ends b ic ml s k)"
    by auto
  from Cat.IH(1) [OF Cat.prems(1) k(1)] have ik: "i \<le> k" "k \<le> length s"
    by simp_all
  from Cat.IH(2) [OF ik(2) k(2)] ik show ?case
    by simp
next
  case (Alt a b)
  from Alt.prems(2) have "j \<in> set (ends a ic ml s i) \<or> j \<in> set (ends b ic ml s i)"
    by simp
  then show ?case
    using Alt.IH(1) [OF Alt.prems(1)] Alt.IH(2) [OF Alt.prems(1)] by blast
next
  case (Star a)
  have "j \<in> set (star (length s) (ends a ic ml s) i)"
    using Star.prems(2) by simp
  from star_bounds [where f = "ends a ic ml s" and n = "length s", OF Star.IH Star.prems(1) this]
  show ?case by simp
next
  case (Plus a)
  from Plus.prems(2) obtain k
    where k: "k \<in> set (ends a ic ml s i)" "j \<in> set (star (length s) (ends a ic ml s) k)"
    by auto
  from Plus.IH [OF Plus.prems(1) k(1)] have ik: "i \<le> k" "k \<le> length s"
    by simp_all
  from star_bounds [where f = "ends a ic ml s" and n = "length s", OF Plus.IH ik(2) k(2)] ik
  show ?case by simp
qed (simp_all split: if_splits)

lemma first_match_None:
  "first_match re s starts = None \<longleftrightarrow> (\<forall>i\<in>set starts. match_ends re s i = [])"
  by (induction starts) (auto split: list.splits)

lemma somewhere_iff:
  "spec_matches_somewhere re s \<longleftrightarrow> (\<exists>i\<in>set [0..<Suc (length s)]. match_ends re s i \<noteq> [])"
proof
  assume "spec_matches_somewhere re s"
  then obtain i j where "i \<le> j" "j \<le> length s" "j \<in> set (match_ends re s i)"
    unfolding spec_matches_somewhere_def by blast
  then have "i \<in> set [0..<Suc (length s)]" "match_ends re s i \<noteq> []"
    by auto
  then show "\<exists>i\<in>set [0..<Suc (length s)]. match_ends re s i \<noteq> []" ..
next
  assume "\<exists>i\<in>set [0..<Suc (length s)]. match_ends re s i \<noteq> []"
  then obtain i where mem: "i \<in> set [0..<Suc (length s)]" and ne: "match_ends re s i \<noteq> []"
    by blast
  from mem have "i < Suc (length s)"
    by (simp only: set_upt atLeastLessThan_iff)
  with ne have i: "i \<le> length s" "match_ends re s i \<noteq> []"
    by arith+
  then obtain j where j: "j \<in> set (match_ends re s i)"
    by (cases "match_ends re s i") auto
  with ends_bounds [OF i(1), of j "source re" "ignoreCase re" "multiline re"]
  have "i \<le> j \<and> j \<le> length s"
    by (simp add: match_ends_def)
  with j show "spec_matches_somewhere re s"
    unfolding spec_matches_somewhere_def by blast
qed

lemma test_stateless:
  assumes "\<not> global re" "\<not> sticky re"
  shows "test re s = (spec_matches_somewhere re s, re)"
proof (cases "first_match re s [0..<Suc (length s)]")
  case None
  then have "\<not> spec_matches_somewhere re s"
    unfolding somewhere_iff first_match_None by blast
  with None assms show ?thesis
    by (simp add: test_def)
next
  case (Some e)
  then have "first_match re s [0..<Suc (length s)] \<noteq> None"
    by simp
  then have "spec_matches_somewhere re s"
    unfolding somewhere_iff first_match_None by blast
  with Some assms show ?thesis
    by (simp add: test_def)
qed

lemma matcher_test_stateless:
  "stateless m \<Longrightarrow> matcher_test arg m = (spec_matches arg m, m)"
  by (cases m) (simp_all add: test_stateless)

lemma some_stateless:
  "list_all stateless ms \<Longrightarrow> some arg ms = ((\<exists>m\<in>set ms. spec_matches arg m), ms)"
  by (induction ms) (auto simp: matcher_test_stateless split: bool.splits)

lemma isDenied_stateless:
  "stateless_rule c \<Longrightarrow> isDenied c arg = (spec_denied c arg, c)"
  by (cases "deniedArgs c")
    (simp_all add: isDenied_def spec_denied_def stateless_rule_def some_stateless)

lemma isAllowedArg_stateless:
  "stateless_rule c \<Longrightarrow> isAllowedArg c arg = (spec_allowed c arg, c)"
  by (cases "allowedArgs c")
    (simp_all add: isAllowedArg_def spec_allowed_def stateless_rule_def some_stateless)

lemma check_args_step:
  "stateless_rule c \<Longrightarrow>
     check_args c b (arg # rest) =
       (if spec_denied c arg then (Some (explicitly_denied arg b), c)
        else if \<not> spec_allowed c arg then (Some (not_allowed arg b), c)
        else check_args c b rest)"
  by (simp add: isDenied_stateless isAllowedArg_stateless)

lemma check_args_unchanged:
  "stateless_rule c \<Longrightarrow> snd (check_args c b argv) = c"
  by (induction argv) (simp_all add: check_args_step del: check_args.simps(2))

lemma check_args_passed:
  "stateless_rule c \<Longrightarrow> \<forall>x\<in>set pre. \<not> spec_denied c x \<and> spec_allowed c x \<Longrightarrow>
     check_args c b (pre @ rest) = check_args c b rest"
  by (induction pre) (simp_all add: check_args_step del: check_args.simps(2))

lemma check_args_accepts:
  "stateless_rule c \<Longrightarrow>
     fst (check_args c b argv) = None \<longleftrightarrow> (\<forall>x\<in>set argv. \<not> spec_denied c x \<and> spec_allowed c x)"
  by (induction argv) (auto simp: check_args_step simp del: check_args.simps(2))

lemma find_command_None:
  "find_rule allowedCommands baseCommand = None \<longleftrightarrow>
     baseCommand \<notin> command ` set allowedCommands"
  by (auto simp: find_rule_def find_None_iff)

lemma store_rule_same:
  "find_rule allowedCommands baseCommand = Some c \<Longrightarrow>
     store_rule baseCommand c allowedCommands = allowedCommands"
  by (induction allowedCommands) (auto simp: find_rule_def split: if_splits)

lemma validateCommand_stateless:
  assumes "find_rule allowedCommands baseCommand = Some c" and "stateless_rule c"
  shows "validateCommand allowedCommands baseCommand argv =
    (fst (check_args c baseCommand argv), allowedCommands)"
proof (cases "allowedArgs c \<noteq> None \<or> deniedArgs c \<noteq> None")
  case True
  obtain r c' where r: "check_args c baseCommand argv = (r, c')"
    by (cases "check_args c baseCommand argv")
  with check_args_unchanged [OF assms(2), of baseCommand argv] have "c' = c"
    by simp
  with True assms(1) r store_rule_same [OF assms(1)] show ?thesis
    by (simp add: validateCommand_def)
next
  case False
  then have none: "allowedArgs c = None" "deniedArgs c = None"
    by simp_all
  then have "\<forall>x\<in>set argv. \<not> spec_denied c x \<and> spec_allowed c x"
    by (simp add: spec_denied_def spec_allowed_def)
  with check_args_accepts [OF assms(2), of baseCommand argv]
  have "fst (check_args c baseCommand argv) = None"
    by simp
  with assms(1) none show ?thesis
    by (simp add: validateCommand_def)
qed


lemma spec_denied_code: "stateless_rule c \<Longrightarrow> spec_denied c arg = fst (isDenied c arg)"
  by (simp add: isDenied_stateless)

lemma spec_allowed_code: "stateless_rule c \<Longrightarrow> spec_allowed c arg = fst (isAllowedArg c arg)"
  by (simp add: isAllowedArg_stateless)

text \<open>
  C1, as amended, for a rule none of whose patterns carries \<open>g\<close> or \<open>y\<close>. When some
  argument matches a denied matcher, the command is rejected. The arguments are judged in
  order, each by the deny check and then by the allow check, and the first argument that
  fails one of them decides: after arguments that pass both, a denied argument gives the
  ``explicitly denied'' message with that argument and the program in it, whether or not
  it also matches an allowed matcher and whatever follows it; an argument that is not
  denied and not allowed gives the ``not allowed'' message with that argument in it, also
  when a denied argument follows.
\<close>

theorem denied_argument_rejected:
  assumes "find_rule allowedCommands baseCommand = Some cfg" and "stateless_rule cfg"
  shows "((\<exists>a\<in>set argv. spec_denied cfg a) \<longrightarrow>
      fst (validateCommand allowedCommands baseCommand argv) \<noteq> None) \<and>
    ((\<forall>x\<in>set pre. \<not> spec_denied cfg x \<and> spec_allowed cfg x) \<longrightarrow>
      (spec_denied cfg arg \<longrightarrow>
         fst (validateCommand allowedCommands baseCommand (pre @ arg # post)) =
           Some (''Argument '' @ [CHR 0x27] @ arg @ [CHR 0x27] @ '' for command '' @
                 [CHR 0x27] @ baseCommand @ [CHR 0x27] @ '' is explicitly denied.'')) \<and>
      (\<not> spec_denied cfg arg \<and> \<not> spec_allowed cfg arg \<longrightarrow>
         fst (validateCommand allowedCommands baseCommand (pre @ arg # post)) =
           Some (''Argument '' @ [CHR 0x27] @ arg @ [CHR 0x27] @ '' for command '' @
                 [CHR 0x27] @ baseCommand @ [CHR 0x27] @ '' is not allowed.'')))"
proof -
  note v = validateCommand_stateless [OF assms]
  have "fst (validateCommand allowedCommands baseCommand argv) \<noteq> None"
    if "\<exists>a\<in>set argv. spec_denied cfg a"
    using that check_args_accepts [OF assms(2), of baseCommand argv] by (auto simp: v)
  moreover have "fst (validateCommand allowedCommands baseCommand (pre @ arg # post)) =
      (if spec_denied cfg arg then Some (explicitly_denied arg baseCommand)
       else if \<not> spec_allowed cfg arg then Some (not_allowed arg baseCommand)
       else fst (check_args cfg baseCommand post))"
    if "\<forall>x\<in>set pre. \<not> spec_denied cfg x \<and> spec_allowed cfg x"
    using check_args_passed [OF assms(2) that, of baseCommand "arg # post"]
      check_args_step [OF assms(2), of baseCommand arg post]
    by (simp add: v)
  ultimately show ?thesis
    by (simp add: explicitly_denied_def not_allowed_def)
qed

theorem denied_argument_rejected_witness:
  "find_rule DEFAULT_ALLOWED_COMMANDS ''npm'' = Some npm_rule \<and> stateless_rule npm_rule \<and>
   fst (isDenied npm_rule ''publish'') \<and> fst (isAllowedArg npm_rule ''publish'') \<and>
   fst (validateCommand DEFAULT_ALLOWED_COMMANDS ''npm'' [''install'', ''publish'', ''|'']) =
     Some ''Argument 'publish' for command 'npm' is explicitly denied.'' \<and>
   fst (validateCommand DEFAULT_ALLOWED_COMMANDS ''npm'' [''install'', ''|'', ''publish'']) =
     Some ''Argument '|' for command 'npm' is not allowed.''"
proof -
  have a: "find_rule DEFAULT_ALLOWED_COMMANDS ''npm'' = Some npm_rule"
    by code_simp
  have b: "stateless_rule npm_rule"
    by code_simp
  have c: "fst (isDenied npm_rule ''publish'')" "fst (isAllowedArg npm_rule ''publish'')"
    by code_simp+
  have d: "\<not> fst (isDenied npm_rule ''install'')" "fst (isAllowedArg npm_rule ''install'')"
    by code_simp+
  have e: "\<not> fst (isDenied npm_rule ''|'')" "\<not> fst (isAllowedArg npm_rule ''|'')"
    by code_simp+
  note s = spec_denied_code [OF b] spec_allowed_code [OF b]
  from denied_argument_rejected
    [OF a b, where arg = "''publish''" and pre = "[''install'']" and post = "[''|'']"] c d
  have "fst (validateCommand DEFAULT_ALLOWED_COMMANDS ''npm'' [''install'', ''publish'', ''|'']) =
     Some ''Argument 'publish' for command 'npm' is explicitly denied.''"
    by (simp add: s)
  moreover from denied_argument_rejected
    [OF a b, where arg = "''|''" and pre = "[''install'']" and post = "[''publish'']"] d e
  have "fst (validateCommand DEFAULT_ALLOWED_COMMANDS ''npm'' [''install'', ''|'', ''publish'']) =
     Some ''Argument '|' for command 'npm' is not allowed.''"
    by (simp add: s)
  ultimately show ?thesis using a b c by simp
qed

text \<open>
  With the compiled-in rules, \<open>npm | publish\<close> has the denied argument \<open>publish\<close>, yet the
  reason names \<open>|\<close>, which is not allowed and comes first.
\<close>

theorem denied_argument_counterexample:
  "fst (isDenied npm_rule ''publish'') \<and>
   find_rule DEFAULT_ALLOWED_COMMANDS ''npm'' = Some npm_rule \<and>
   fst (validateCommand DEFAULT_ALLOWED_COMMANDS ''npm'' [''|'', ''publish'']) =
     Some (not_allowed ''|'' ''npm'') \<and>
   fst (validateCommand DEFAULT_ALLOWED_COMMANDS ''npm'' [''|'', ''publish'']) \<noteq>
     Some (explicitly_denied ''publish'' ''npm'')"
  by code_simp

text \<open>
  C2. A program that no rule names is rejected, whatever its arguments, with the message
  that holds its name; a program whose rule has neither \<open>allowedArgs\<close> nor \<open>deniedArgs\<close> is
  accepted with any arguments. Neither call changes the rules.
\<close>

theorem unlisted_program_rejected:
  "(baseCommand \<notin> command ` set allowedCommands \<longrightarrow>
      validateCommand allowedCommands baseCommand argv =
        (Some (''Command '' @ [CHR 0x27] @ baseCommand @ [CHR 0x27] @
               '' is not in the allowed whitelist.''), allowedCommands)) \<and>
   (find_rule allowedCommands baseCommand = Some cfg \<and>
    allowedArgs cfg = None \<and> deniedArgs cfg = None \<longrightarrow>
      validateCommand allowedCommands baseCommand argv = (None, allowedCommands))"
  using find_command_None [of allowedCommands baseCommand]
  by (auto simp: validateCommand_def not_whitelisted_def)

theorem unlisted_program_rejected_witness:
  "''rm'' \<notin> command ` set DEFAULT_ALLOWED_COMMANDS \<and>
   fst (validateCommand DEFAULT_ALLOWED_COMMANDS ''rm'' [''-rf'', ''/'']) =
     Some ''Command 'rm' is not in the allowed whitelist.'' \<and>
   find_rule DEFAULT_ALLOWED_COMMANDS ''ls'' = Some (program_only ''ls'') \<and>
   fst (validateCommand DEFAULT_ALLOWED_COMMANDS ''ls'' [''|'', ''grep'']) = None"
proof -
  have a: "''rm'' \<notin> command ` set DEFAULT_ALLOWED_COMMANDS"
    by code_simp
  have b: "find_rule DEFAULT_ALLOWED_COMMANDS ''ls'' = Some (program_only ''ls'')"
    by code_simp
  have c: "allowedArgs (program_only ''ls'') = None \<and> deniedArgs (program_only ''ls'') = None"
    by (simp add: program_only_def)
  from unlisted_program_rejected [of "''rm''" DEFAULT_ALLOWED_COMMANDS "[''-rf'', ''/'']"] a
  have "fst (validateCommand DEFAULT_ALLOWED_COMMANDS ''rm'' [''-rf'', ''/'']) =
     Some ''Command 'rm' is not in the allowed whitelist.''"
    by simp
  moreover from unlisted_program_rejected
    [of "''ls''" DEFAULT_ALLOWED_COMMANDS "[''|'', ''grep'']" "program_only ''ls''"] b c
  have "fst (validateCommand DEFAULT_ALLOWED_COMMANDS ''ls'' [''|'', ''grep'']) = None"
    by simp
  ultimately show ?thesis using a b by simp
qed

text \<open>
  An \<open>allowedArgs\<close> that is present and empty is another matter: an empty array is truthy,
  the loop runs, and the first argument is not allowed.
\<close>

lemma empty_allowed_list_rejects:
  "find_rule allowedCommands baseCommand = Some cfg \<Longrightarrow>
   allowedArgs cfg = Some [] \<Longrightarrow> deniedArgs cfg = None \<Longrightarrow>
   fst (validateCommand allowedCommands baseCommand (arg # rest)) =
     Some (not_allowed arg baseCommand)"
  by (simp add: validateCommand_def isDenied_def isAllowedArg_def)

text \<open>
  C10. A program that some rule names is accepted without arguments, whatever the
  matchers of its rule, and the call changes nothing.
\<close>

theorem bare_program_accepted:
  "baseCommand \<in> command ` set allowedCommands \<Longrightarrow>
     validateCommand allowedCommands baseCommand [] = (None, allowedCommands)"
proof -
  assume "baseCommand \<in> command ` set allowedCommands"
  with find_command_None [of allowedCommands baseCommand]
  obtain c where c: "find_rule allowedCommands baseCommand = Some c"
    by auto
  from c store_rule_same [OF c] show ?thesis
    by (simp add: validateCommand_def)
qed

theorem bare_program_accepted_witness:
  "''npm'' \<in> command ` set DEFAULT_ALLOWED_COMMANDS \<and> allowedArgs npm_rule \<noteq> None \<and>
   find_rule DEFAULT_ALLOWED_COMMANDS ''npm'' = Some npm_rule \<and>
   fst (validateCommand DEFAULT_ALLOWED_COMMANDS ''npm'' []) = None"
proof -
  have a: "''npm'' \<in> command ` set DEFAULT_ALLOWED_COMMANDS"
    by code_simp
  have b: "find_rule DEFAULT_ALLOWED_COMMANDS ''npm'' = Some npm_rule"
    by code_simp
  have c: "allowedArgs npm_rule \<noteq> None"
    by (simp add: npm_rule_def)
  from bare_program_accepted [OF a] a b c show ?thesis
    by simp
qed




text \<open>
  A pattern that carries \<open>g\<close> is outside the two theorems above, and its tests do leave
  something behind. A rule that denies \<open>/^-/g\<close> rejects \<open>-rf\<close> in one call and accepts it
  in the next, where the search starts at the \<open>lastIndex\<close> 1 that the first call left; a
  rule that allows \<open>/^-/g\<close> accepts \<open>-a\<close> and then rejects \<open>-b\<close> in the same call.
\<close>

lemma global_flag_carries_over:
  "fst (validateCommand
     [\<lparr>command = ''rm'', allowedArgs = None,
       deniedArgs = Some [Pattern (re_dash\<lparr>global := True\<rparr>)]\<rparr>]
     ''rm'' [''-rf'']) = Some (explicitly_denied ''-rf'' ''rm'')"
  "fst (validateCommand
     (snd (validateCommand
       [\<lparr>command = ''rm'', allowedArgs = None,
         deniedArgs = Some [Pattern (re_dash\<lparr>global := True\<rparr>)]\<rparr>]
       ''rm'' [''-rf'']))
     ''rm'' [''-rf'']) = None"
  "fst (validateCommand
     [\<lparr>command = ''ls'', allowedArgs = Some [Pattern (re_dash\<lparr>global := True\<rparr>)],
       deniedArgs = None\<rparr>]
     ''ls'' [''-a'', ''-b'']) = Some (not_allowed ''-b'' ''ls'')"
  by code_simp+

text \<open>The expectations of the repository's tests for \<open>validateCommand\<close>.\<close>

lemma validateCommand_repository_tests:
  "fst (validateCommand DEFAULT_ALLOWED_COMMANDS ''ls'' []) = None"
  "fst (validateCommand DEFAULT_ALLOWED_COMMANDS ''pwd'' []) = None"
  "fst (validateCommand DEFAULT_ALLOWED_COMMANDS ''npm'' [''install'']) = None"
  "fst (validateCommand DEFAULT_ALLOWED_COMMANDS ''npm'' [''run'', ''build'']) = None"
  "fst (validateCommand DEFAULT_ALLOWED_COMMANDS ''git'' [''status'']) = None"
  "fst (validateCommand DEFAULT_ALLOWED_COMMANDS ''rm'' [''-rf'', ''/'']) \<noteq> None"
  "fst (validateCommand DEFAULT_ALLOWED_COMMANDS ''shutdown'' []) \<noteq> None"
  "fst (validateCommand DEFAULT_ALLOWED_COMMANDS ''npm'' [''publish'']) \<noteq> None"
  "fst (validateCommand DEFAULT_ALLOWED_COMMANDS ''npm'' [''whoami'']) \<noteq> None"
  "fst (validateCommand DEFAULT_ALLOWED_COMMANDS ''npm'' [''install'', ''my-package'']) = None"
  "fst (validateCommand DEFAULT_ALLOWED_COMMANDS ''npm''
     [''install'', ''@my-scope/pkg-name.js'']) = None"
  "fst (validateCommand DEFAULT_ALLOWED_COMMANDS ''npx'' [''create-next-app@latest'']) \<noteq> None"
  "fst (validateCommand DEFAULT_ALLOWED_COMMANDS ''npm'' [''eval'']) \<noteq> None"
  "fst (validateCommand DEFAULT_ALLOWED_COMMANDS ''ls'' [''|'', ''grep'']) = None"
  "fst (validateCommand DEFAULT_ALLOWED_COMMANDS ''npm'' [''install'', ''|'', ''bash'']) \<noteq> None"
  by code_simp+

section \<open>Properties of the process runner\<close>

lemma run_append:
  "run t m (xs @ ys) st = run t m ys (run t m xs st)"
  by (induction xs arbitrary: st) simp_all

lemma stdout_chunks_append:
  "stdout_chunks (xs @ ys) = stdout_chunks xs @ stdout_chunks ys"
  by (induction xs rule: stdout_chunks.induct) simp_all

lemma stderr_chunks_append:
  "stderr_chunks (xs @ ys) = stderr_chunks xs @ stderr_chunks ys"
  by (induction xs rule: stderr_chunks.induct) simp_all

lemma dispatch_stdout:
  "(stdout (dispatch t m e st), stdoutTruncated (dispatch t m e st)) =
     foldl (feed m) (stdout st, stdoutTruncated st) (stdout_chunks [e])"
  by (cases e) (simp_all add: feed_def reject_def resolve_def cleanup_def Let_def)

lemma dispatch_stderr:
  "(stderr (dispatch t m e st), stderrTruncated (dispatch t m e st)) =
     foldl (feed m) (stderr st, stderrTruncated st) (stderr_chunks [e])"
  by (cases e) (simp_all add: feed_def reject_def resolve_def cleanup_def Let_def)

lemma run_stdout:
  "(stdout (run t m es st), stdoutTruncated (run t m es st)) =
     foldl (feed m) (stdout st, stdoutTruncated st) (stdout_chunks es)"
proof (induction es arbitrary: st)
  case Nil
  then show ?case by simp
next
  case (Cons e es)
  have "stdout_chunks (e # es) = stdout_chunks [e] @ stdout_chunks es"
    using stdout_chunks_append [of "[e]" es] by simp
  then show ?case
    using Cons.IH [of "dispatch t m e st"] dispatch_stdout [of t m e st] by simp
qed

lemma run_stderr:
  "(stderr (run t m es st), stderrTruncated (run t m es st)) =
     foldl (feed m) (stderr st, stderrTruncated st) (stderr_chunks es)"
proof (induction es arbitrary: st)
  case Nil
  then show ?case by simp
next
  case (Cons e es)
  have "stderr_chunks (e # es) = stderr_chunks [e] @ stderr_chunks es"
    using stderr_chunks_append [of "[e]" es] by simp
  then show ?case
    using Cons.IH [of "dispatch t m e st"] dispatch_stderr [of t m e st] by simp
qed

lemma feed_shape:
  "foldl (feed m) ([], False) cs = (buf, tr) \<Longrightarrow>
     (\<not> tr \<longrightarrow> buf = concat cs \<and> (\<forall>h<length cs. length (concat (take h cs)) < m)) \<and>
     (tr \<longrightarrow> (\<exists>k<length cs. buf = concat (take k cs) @ truncation_marker \<and>
              m \<le> length (concat (take k cs)) \<and>
              (\<forall>h<k. length (concat (take h cs)) < m)))"
proof (induction cs arbitrary: buf tr rule: rev_induct)
  case Nil
  then show ?case by simp
next
  case (snoc c cs)
  obtain b0 t0 where p: "foldl (feed m) ([], False) cs = (b0, t0)"
    by (cases "foldl (feed m) ([], False) cs")
  note IH = snoc.IH [OF p]
  from snoc.prems p have step: "feed m (b0, t0) c = (buf, tr)"
    by simp
  show ?case
  proof (cases t0)
    case True
    from IH True obtain k where k: "k < length cs"
      "b0 = concat (take k cs) @ truncation_marker" "m \<le> length (concat (take k cs))"
      "\<forall>h<k. length (concat (take h cs)) < m"
      by blast
    from k(2,3) have "m \<le> length b0"
      by simp
    with step True have same: "buf = b0" "tr"
      by (auto simp: feed_def)
    have "k < length (cs @ [c])"
      using k(1) by simp
    moreover have "buf = concat (take k (cs @ [c])) @ truncation_marker"
      using k(1,2) same(1) by simp
    moreover have "m \<le> length (concat (take k (cs @ [c])))"
      using k(1,3) by simp
    moreover have "\<forall>h<k. length (concat (take h (cs @ [c]))) < m"
      using k(1,4) by simp
    ultimately show ?thesis
      using same(2) by blast
  next
    case False
    with IH have b0: "b0 = concat cs" and below: "\<forall>h<length cs. length (concat (take h cs)) < m"
      by simp_all
    show ?thesis
    proof (cases "length b0 < m")
      case True
      with step False have r: "buf = b0 @ c" "\<not> tr"
        by (auto simp: feed_def)
      have "\<forall>h<length (cs @ [c]). length (concat (take h (cs @ [c]))) < m"
      proof (intro allI impI)
        fix h
        assume "h < length (cs @ [c])"
        then consider "h < length cs" | "h = length cs"
          by fastforce
        then show "length (concat (take h (cs @ [c]))) < m"
        proof cases
          case 1
          then show ?thesis using below by simp
        next
          case 2
          then show ?thesis using True b0 by simp
        qed
      qed
      then show ?thesis
        using r b0 by simp
    next
      case over: False
      with step False have r: "buf = b0 @ truncation_marker" "tr"
        by (auto simp: feed_def)
      have "length cs < length (cs @ [c])"
        by simp
      moreover have "buf = concat (take (length cs) (cs @ [c])) @ truncation_marker"
        using r(1) b0 by simp
      moreover have "m \<le> length (concat (take (length cs) (cs @ [c])))"
        using over b0 by simp
      moreover have "\<forall>h<length cs. length (concat (take h (cs @ [c]))) < m"
        using below by simp
      ultimately show ?thesis
        using r(2) by blast
    qed
  qed
qed

lemma feed_stuck:
  "m \<le> length buf \<Longrightarrow> foldl (feed m) (buf, True) cs = (buf, True)"
  by (induction cs) (simp_all add: feed_def)

lemma stdout_shape:
  "(\<not> stdoutTruncated (run t m es locals0) \<longrightarrow>
      stdout (run t m es locals0) = concat (stdout_chunks es) \<and>
      (\<forall>h<length (stdout_chunks es). length (concat (take h (stdout_chunks es))) < m)) \<and>
   (stdoutTruncated (run t m es locals0) \<longrightarrow>
      (\<exists>k<length (stdout_chunks es).
          stdout (run t m es locals0) = concat (take k (stdout_chunks es)) @ truncation_marker \<and>
          m \<le> length (concat (take k (stdout_chunks es))) \<and>
          (\<forall>h<k. length (concat (take h (stdout_chunks es))) < m)))"
proof -
  have "foldl (feed m) ([], False) (stdout_chunks es) =
      (stdout (run t m es locals0), stdoutTruncated (run t m es locals0))"
    using run_stdout [of t m es locals0] by (simp add: locals0_def)
  from feed_shape [OF this] show ?thesis .
qed

lemma stderr_shape:
  "(\<not> stderrTruncated (run t m es locals0) \<longrightarrow>
      stderr (run t m es locals0) = concat (stderr_chunks es) \<and>
      (\<forall>h<length (stderr_chunks es). length (concat (take h (stderr_chunks es))) < m)) \<and>
   (stderrTruncated (run t m es locals0) \<longrightarrow>
      (\<exists>k<length (stderr_chunks es).
          stderr (run t m es locals0) = concat (take k (stderr_chunks es)) @ truncation_marker \<and>
          m \<le> length (concat (take k (stderr_chunks es))) \<and>
          (\<forall>h<k. length (concat (take h (stderr_chunks es))) < m)))"
proof -
  have "foldl (feed m) ([], False) (stderr_chunks es) =
      (stderr (run t m es locals0), stderrTruncated (run t m es locals0))"
    using run_stderr [of t m es locals0] by (simp add: locals0_def)
  from feed_shape [OF this] show ?thesis .
qed

lemma stdout_stuck:
  assumes "stdoutTruncated (run t m es locals0)"
  shows "stdout (run t m later (run t m es locals0)) = stdout (run t m es locals0) \<and>
    stdoutTruncated (run t m later (run t m es locals0))"
proof -
  from assms stdout_shape [of t m es] have "m \<le> length (stdout (run t m es locals0))"
    by auto
  from feed_stuck [OF this, of "stdout_chunks later"] assms
    run_stdout [of t m later "run t m es locals0"]
  show ?thesis by simp
qed

lemma stderr_stuck:
  assumes "stderrTruncated (run t m es locals0)"
  shows "stderr (run t m later (run t m es locals0)) = stderr (run t m es locals0) \<and>
    stderrTruncated (run t m later (run t m es locals0))"
proof -
  from assms stderr_shape [of t m es] have "m \<le> length (stderr (run t m es locals0))"
    by auto
  from feed_stuck [OF this, of "stderr_chunks later"] assms
    run_stderr [of t m later "run t m es locals0"]
  show ?thesis by simp
qed

text \<open>
  C7, as amended. Each stream is accumulated from its own chunks only, a whole chunk at a
  time. While a stream is not truncated nothing has been dropped: its text is all of its
  chunks, and every proper prefix of them is shorter than \<open>maxBuffer\<close>, so the text may
  pass \<open>maxBuffer\<close> by less than the length of the last chunk. A stream is truncated by the
  first chunk that arrives once the text has reached \<open>maxBuffer\<close>: the text is then the
  chunks before that one followed by the marker, once, and from then on neither the text
  nor the flag of that stream changes, whatever happens.
\<close>

theorem output_accumulation:
  "(\<not> stdoutTruncated (run t m es locals0) \<longrightarrow>
      stdout (run t m es locals0) = concat (stdout_chunks es) \<and>
      (\<forall>h<length (stdout_chunks es). length (concat (take h (stdout_chunks es))) < m)) \<and>
   (stdoutTruncated (run t m es locals0) \<longrightarrow>
      (\<exists>k<length (stdout_chunks es).
          stdout (run t m es locals0) = concat (take k (stdout_chunks es)) @ truncation_marker \<and>
          m \<le> length (concat (take k (stdout_chunks es))) \<and>
          (\<forall>h<k. length (concat (take h (stdout_chunks es))) < m)) \<and>
      stdout (run t m later (run t m es locals0)) = stdout (run t m es locals0) \<and>
      stdoutTruncated (run t m later (run t m es locals0))) \<and>
   (\<not> stderrTruncated (run t m es locals0) \<longrightarrow>
      stderr (run t m es locals0) = concat (stderr_chunks es) \<and>
      (\<forall>h<length (stderr_chunks es). length (concat (take h (stderr_chunks es))) < m)) \<and>
   (stderrTruncated (run t m es locals0) \<longrightarrow>
      (\<exists>k<length (stderr_chunks es).
          stderr (run t m es locals0) = concat (take k (stderr_chunks es)) @ truncation_marker \<and>
          m \<le> length (concat (take k (stderr_chunks es))) \<and>
          (\<forall>h<k. length (concat (take h (stderr_chunks es))) < m)) \<and>
      stderr (run t m later (run t m es locals0)) = stderr (run t m es locals0) \<and>
      stderrTruncated (run t m later (run t m es locals0)))"
  using stdout_shape [of t m es] stderr_shape [of t m es]
    stdout_stuck [of t m es later] stderr_stuck [of t m es later]
  by blast

theorem output_accumulation_witness:
  "stdoutTruncated
     (run 600000 4 [StdoutData ''abc'', StderrData ''zz'', StdoutData ''defgh'', StdoutData ''i'']
        locals0) \<and>
   stdout
     (run 600000 4 [StdoutData ''j'', ChildClose (Some 0)]
       (run 600000 4
          [StdoutData ''abc'', StderrData ''zz'', StdoutData ''defgh'', StdoutData ''i'']
          locals0)) =
     ''abcdefgh'' @ truncation_marker \<and>
   \<not> stderrTruncated
     (run 600000 4 [StdoutData ''abc'', StderrData ''zz'', StdoutData ''defgh'', StdoutData ''i'']
        locals0) \<and>
   stderr
     (run 600000 4 [StdoutData ''abc'', StderrData ''zz'', StdoutData ''defgh'', StdoutData ''i'']
        locals0) = ''zz''"
proof -
  let ?es = "[StdoutData ''abc'', StderrData ''zz'', StdoutData ''defgh'', StdoutData ''i'']"
  have a: "stdoutTruncated (run 600000 4 ?es locals0)"
    by (simp add: locals0_def)
  have b: "stdout (run 600000 4 ?es locals0) = ''abcdefgh'' @ truncation_marker"
    by (simp add: locals0_def)
  have c: "\<not> stderrTruncated (run 600000 4 ?es locals0)"
    by (simp add: locals0_def)
  have d: "concat (stderr_chunks ?es) = ''zz''"
    by simp
  from output_accumulation [of 600000 4 ?es "[StdoutData ''j'', ChildClose (Some 0)]"] a b c d
  show ?thesis by simp
qed

theorem output_cap_counterexample:
  "stdout (run 600000 4 [StdoutData ''abc'', StdoutData ''defgh''] locals0) = ''abcdefgh'' \<and>
   \<not> length (stdout (run 600000 4 [StdoutData ''abc'', StdoutData ''defgh''] locals0)) \<le> 4 \<and>
   \<not> stdoutTruncated (run 600000 4 [StdoutData ''abc'', StdoutData ''defgh''] locals0)"
  by (simp add: locals0_def)

lemma quiet_dispatch:
  "\<not> terminal e \<Longrightarrow>
     calls (dispatch t m e st) = calls st \<and>
     timeout_pending (dispatch t m e st) = timeout_pending st \<and>
     timedOut (dispatch t m e st) = timedOut st"
  by (cases e) simp_all

lemma quiet_run:
  "\<not> list_ex terminal es \<Longrightarrow>
     calls (run t m es st) = calls st \<and>
     timeout_pending (run t m es st) = timeout_pending st \<and>
     timedOut (run t m es st) = timedOut st"
proof (induction es arbitrary: st)
  case Nil
  then show ?case by simp
next
  case (Cons e es)
  then have "\<not> terminal e" "\<not> list_ex terminal es"
    by simp_all
  then show ?case
    using Cons.IH [of "dispatch t m e st"] quiet_dispatch [of e t m st] by simp
qed

lemma suppressed_dispatch:
  "timedOut st \<Longrightarrow> \<not> timeout_pending st \<Longrightarrow>
     calls (dispatch t m e st) = calls st \<and> timedOut (dispatch t m e st) \<and>
     \<not> timeout_pending (dispatch t m e st)"
  by (cases e) (simp_all add: cleanup_def)

lemma suppressed_run:
  "timedOut st \<Longrightarrow> \<not> timeout_pending st \<Longrightarrow> calls (run t m es st) = calls st"
proof (induction es arbitrary: st)
  case Nil
  then show ?case by simp
next
  case (Cons e es)
  from suppressed_dispatch [OF Cons.prems, of t m e] Cons.IH [of "dispatch t m e st"]
  show ?case by simp
qed

lemma calls_dispatch: "\<exists>xs. calls (dispatch t m e st) = calls st @ xs"
  by (cases e) (simp_all add: reject_def resolve_def cleanup_def Let_def)

lemma calls_run: "\<exists>xs. calls (run t m es st) = calls st @ xs"
proof (induction es arbitrary: st)
  case Nil
  then show ?case by simp
next
  case (Cons e es)
  from calls_dispatch [of t m e st] obtain xs
    where "calls (dispatch t m e st) = calls st @ xs" ..
  moreover from Cons.IH [of "dispatch t m e st"] obtain ys
    where "calls (run t m es (dispatch t m e st)) = calls (dispatch t m e st) @ ys" ..
  ultimately show ?case by simp
qed

lemma promise_kept: "promise st = Some out \<Longrightarrow> promise (run t m es st) = Some out"
  using calls_run [of t m es st] by (auto simp: promise_def split: list.splits)

lemma first_terminal:
  assumes "\<not> list_ex terminal pre"
  shows "spawnAsync t m pre = None"
    and "calls (run t m (pre @ TimeoutFires # post) locals0) = [Rejected (timed_out t)]"
    and "spawnAsync t m (pre @ TimeoutFires # post) = Some (Rejected (timed_out t))"
    and "spawnAsync t m (pre @ ChildError e # post) = Some (Rejected e)"
    and "spawnAsync t m (pre @ ChildClose code # post) =
      Some (if code = Some 0
            then Resolved (stdout (run t m pre locals0)) (stderr (run t m pre locals0))
            else Rejected (exited_with code (stderr (run t m pre locals0))))"
proof -
  let ?st = "run t m pre locals0"
  from quiet_run [OF assms, of t m locals0]
  have q: "calls ?st = []" "timeout_pending ?st" "\<not> timedOut ?st"
    by (simp_all add: locals0_def)
  show "spawnAsync t m pre = None"
    using q(1) by (simp add: spawnAsync_def promise_def)
  let ?fired = "dispatch t m TimeoutFires ?st"
  have f: "calls ?fired = [Rejected (timed_out t)]" "timedOut ?fired" "\<not> timeout_pending ?fired"
    using q by (simp_all add: reject_def)
  show 2: "calls (run t m (pre @ TimeoutFires # post) locals0) = [Rejected (timed_out t)]"
    using suppressed_run [OF f(2,3), of t m post] f(1) by (simp add: run_append)
  show "spawnAsync t m (pre @ TimeoutFires # post) = Some (Rejected (timed_out t))"
    using 2 by (simp add: spawnAsync_def promise_def)
  have "promise (dispatch t m (ChildError e) ?st) = Some (Rejected e)"
    using q by (simp add: promise_def reject_def cleanup_def)
  from promise_kept [OF this, of t m post]
  show "spawnAsync t m (pre @ ChildError e # post) = Some (Rejected e)"
    by (simp add: spawnAsync_def run_append)
  have "promise (dispatch t m (ChildClose code) ?st) =
      Some (if code = Some 0 then Resolved (stdout ?st) (stderr ?st)
            else Rejected (exited_with code (stderr ?st)))"
    using q by (simp add: promise_def reject_def resolve_def cleanup_def)
  from promise_kept [OF this, of t m post]
  show "spawnAsync t m (pre @ ChildClose code # post) =
      Some (if code = Some 0 then Resolved (stdout ?st) (stderr ?st)
            else Rejected (exited_with code (stderr ?st)))"
    by (simp add: spawnAsync_def run_append)
qed

lemma settled_for_good:
  assumes "list_ex terminal es"
  shows "\<exists>out. spawnAsync t m es = Some out \<and> (\<forall>later. spawnAsync t m (es @ later) = Some out)"
proof -
  from assms have "\<exists>x\<in>set es. terminal x"
    by (simp add: list_ex_iff)
  from split_list_first_prop [OF this] obtain pre e post
    where es: "es = pre @ e # post" and e: "terminal e" and pre: "\<forall>y\<in>set pre. \<not> terminal y"
    by blast
  from pre have quiet: "\<not> list_ex terminal pre"
    by (simp add: list_ex_iff)
  have ext: "es @ later = pre @ e # (post @ later)" for later
    by (simp add: es)
  show ?thesis
  proof (cases e)
    case (StdoutData d)
    with e show ?thesis by simp
  next
    case (StderrData d)
    with e show ?thesis by simp
  next
    case TimeoutFires
    then show ?thesis
      using first_terminal(3) [OF quiet, of t m] es ext by simp
  next
    case (ChildError err)
    then show ?thesis
      using first_terminal(4) [OF quiet, of t m err] es ext by simp
  next
    case (ChildClose code)
    then show ?thesis
      using first_terminal(5) [OF quiet, of t m code] es ext by simp
  qed
qed

text \<open>
  C8. A run reports no outcome before the timer, an \<open>error\<close> or a \<open>close\<close> has happened,
  and exactly one from then on: the outcome is there once one of the three has happened,
  and nothing that follows changes it. The first of the three decides it. When the timer
  fires first, the only call ever made is the rejection with the timeout error: every
  later \<open>error\<close> or \<open>close\<close> is suppressed and nothing is resolved. An \<open>error\<close> first
  rejects with that error; a \<open>close\<close> first resolves with the two texts accumulated so
  far when the code is 0, and rejects with the exit code and the standard error text
  otherwise.
\<close>

theorem single_outcome:
  "(\<not> list_ex terminal es \<longrightarrow> spawnAsync t m es = None) \<and>
   (list_ex terminal es \<longrightarrow>
      (\<exists>out. spawnAsync t m es = Some out \<and>
             (\<forall>later. spawnAsync t m (es @ later) = Some out))) \<and>
   (\<not> list_ex terminal pre \<longrightarrow>
      calls (run t m (pre @ TimeoutFires # post) locals0) = [Rejected (timed_out t)] \<and>
      spawnAsync t m (pre @ TimeoutFires # post) = Some (Rejected (timed_out t)) \<and>
      spawnAsync t m (pre @ ChildError e # post) = Some (Rejected e) \<and>
      spawnAsync t m (pre @ ChildClose code # post) =
        Some (if code = Some 0
              then Resolved (stdout (run t m pre locals0)) (stderr (run t m pre locals0))
              else Rejected (exited_with code (stderr (run t m pre locals0)))))"
  using first_terminal(1) [of es t m] first_terminal(2) [of pre t m post]
    first_terminal(3) [of pre t m post] first_terminal(4) [of pre t m e post]
    first_terminal(5) [of pre t m code post] settled_for_good [of es t m]
  by blast

theorem single_outcome_witness:
  "\<not> list_ex terminal [StdoutData ''partial''] \<and>
   spawnAsync 600000 4 [StdoutData ''partial''] = None \<and>
   spawnAsync 600000 4 [StdoutData ''partial'', TimeoutFires, StdoutData ''more'', ChildClose (Some 0)] =
     Some (Rejected (Error ''Command timed out after 600000ms'')) \<and>
   spawnAsync 600000 4 [StdoutData ''partial'', ChildError (Error ''spawn ENOENT''), ChildClose (Some (- 2))] =
     Some (Rejected (Error ''spawn ENOENT'')) \<and>
   spawnAsync 600000 4 [StdoutData ''partial'', ChildClose (Some 0)] =
     Some (Resolved ''partial'' []) \<and>
   list_ex terminal [StdoutData ''partial'', ChildClose (Some 1)] \<and>
   (\<exists>out. spawnAsync 600000 4 [StdoutData ''partial'', ChildClose (Some 1)] = Some out)"
proof -
  have a: "\<not> list_ex terminal [StdoutData ''partial'']"
    by simp
  have b: "timed_out 600000 = Error ''Command timed out after 600000ms''"
    by (simp add: timed_out_def show_nat.simps digit_def)
  have c: "run 600000 4 [StdoutData ''partial''] locals0 = locals0\<lparr>stdout := ''partial''\<rparr>"
    by (simp add: locals0_def)
  have d: "list_ex terminal [StdoutData ''partial'', ChildClose (Some 1)]"
    by simp
  from single_outcome
    [where es = "[StdoutData ''partial'']" and pre = "[StdoutData ''partial'']"
      and t = 600000 and m = 4 and post = "[StdoutData ''more'', ChildClose (Some 0)]"] a b
  have "spawnAsync 600000 4 [StdoutData ''partial''] = None"
    "spawnAsync 600000 4 [StdoutData ''partial'', TimeoutFires, StdoutData ''more'', ChildClose (Some 0)] =
     Some (Rejected (Error ''Command timed out after 600000ms''))"
    by simp_all
  moreover from single_outcome
    [where pre = "[StdoutData ''partial'']" and t = 600000 and m = 4
      and e = "Error ''spawn ENOENT''" and post = "[ChildClose (Some (- 2))]"] a
  have "spawnAsync 600000 4 [StdoutData ''partial'', ChildError (Error ''spawn ENOENT''), ChildClose (Some (- 2))] =
     Some (Rejected (Error ''spawn ENOENT''))"
    by simp
  moreover from single_outcome
    [where pre = "[StdoutData ''partial'']" and t = 600000 and m = 4 and post = "[]"
      and code = "Some 0"] a c
  have "spawnAsync 600000 4 [StdoutData ''partial'', ChildClose (Some 0)] =
     Some (Resolved ''partial'' [])"
    by (simp add: locals0_def)
  moreover from single_outcome
    [where es = "[StdoutData ''partial'', ChildClose (Some 1)]" and t = 600000 and m = 4] d
  have "\<exists>out. spawnAsync 600000 4 [StdoutData ''partial'', ChildClose (Some 1)] = Some out"
    by blast
  ultimately show ?thesis using a d by simp
qed

end
